theory Spec2Isabelle
  imports Main "HOL-Library.Sublist"
begin

section \<open>The fully sharded training plugin (fully\_sharded.py)\<close>

text \<open>
  A shallow embedding of \<^verbatim>\<open>FullyShardedPlugin\<close>. The plugin is glue around libraries
  that are not part of the file (torch, FairScale, the base \<^verbatim>\<open>DDPPlugin\<close>, the trainer);
  what those do is taken as a parameter (the record \<open>ext\<close> below), and every call the
  plugin makes into them is written to a trace, in the order the source makes it.
  Calls into those libraries are taken to return; an exception of theirs would pass
  through the plugin unchanged.
\<close>

subsection \<open>Python values: exceptions, strings, dictionaries\<close>

datatype error =
    MisconfigurationException string
  | ValueError string
  | KeyError string
  | BdbQuit

text \<open>
  What a call does: it returns a value, raises, or stays suspended at the prompt of the
  interactive debugger because nobody answers.
\<close>

datatype 'a outcome = Returns 'a | Raises error | Suspended

text \<open>
  \<^verbatim>\<open>str.partition(sep)\<close>: split at the first occurrence of \<open>sep\<close> into the part before,
  the separator and the part after; without an occurrence the result is the string and
  two empty strings. An empty separator raises \<^verbatim>\<open>ValueError\<close>.
  \<open>find_sep\<close> looks for the first occurrence, scanning from the left.
\<close>

fun find_sep :: "string \<Rightarrow> string \<Rightarrow> (string \<times> string) option" where
  "find_sep sep [] = (if sep = [] then Some ([], []) else None)"
| "find_sep sep (c # cs) =
     (if prefix sep (c # cs) then Some ([], drop (length sep) (c # cs))
      else (case find_sep sep cs of
              None \<Rightarrow> None
            | Some (h, t) \<Rightarrow> Some (c # h, t)))"

definition partition_str :: "string \<Rightarrow> string \<Rightarrow> error + (string \<times> string \<times> string)" where
  "partition_str s sep =
     (if sep = [] then Inl (ValueError ''empty separator'')
      else (case find_sep sep s of
              None \<Rightarrow> Inr (s, [], [])
            | Some (h, t) \<Rightarrow> Inr (h, sep, t)))"

text \<open>
  A Python \<^verbatim>\<open>dict\<close> with string keys, as the list of its items in insertion order; the
  keys of a dictionary are distinct. Storing under a key that is present replaces the
  value and keeps the key's place; a new key goes to the end.
\<close>

type_synonym 'v dict = "(string \<times> 'v) list"

fun dict_setitem :: "string \<Rightarrow> 'v \<Rightarrow> 'v dict \<Rightarrow> 'v dict" where
  "dict_setitem k v [] = [(k, v)]"
| "dict_setitem k v (p # ps) = (if fst p = k then (k, v) # ps else p # dict_setitem k v ps)"

definition dict_getitem :: "'v dict \<Rightarrow> string \<Rightarrow> error + 'v" where
  "dict_getitem d k = (case map_of d k of None \<Rightarrow> Inl (KeyError k) | Some v \<Rightarrow> Inr v)"

definition dict_keys :: "'v dict \<Rightarrow> string list" where
  "dict_keys d = map fst d"

text \<open>
  Values the plugin hands on without looking inside (tensors, step arguments, step
  outputs) have the type \<open>'v\<close>; a checkpoint entry is such a value or a state dict.
\<close>

datatype 'v pyval = Val 'v | DictVal "'v dict"

subsection \<open>Devices, the world outside the plugin, and the trace\<close>

datatype device = Device (device_type: string) (device_index: "nat option")

datatype step = TrainingStep | ValidationStep | TestStep | PredictStep

text \<open>The keyword arguments of \<^verbatim>\<open>enable_wrap\<close>, as \<open>model_sharded_context\<close> passes them.\<close>

record wrap_config =
  wc_min_num_params :: int
  wc_process_group :: nat
  wc_cpu_offload :: bool
  wc_move_grads_to_cpu :: "bool option"
  wc_flatten_parameters :: bool
  wc_mixed_precision :: bool
  wc_reshard_after_forward :: bool
  wc_fp32_reduce_scatter :: "bool option"
  wc_compute_dtype :: "string option"
  wc_bucket_cap_mb :: int

datatype event =
    E_new_group nat
  | E_super_setup_distributed
  | E_cuda_set_device device
  | E_enable_wrap_enter wrap_config
  | E_enable_wrap_exit
  | E_auto_wrap
  | E_wrap
  | E_model_to device
  | E_lightning_module_to device
  | E_setup_optimizers
  | E_configure_sync_batchnorm
  | E_barrier
  | E_state_dict
  | E_pdb_set_trace
  | E_super_step step
  | E_model_step step

datatype pdb_cmd = Continue | Quit

text \<open>
  The world: the trace of calls made so far, the number of process groups that
  \<^verbatim>\<open>torch.distributed.new_group\<close> has handed out (a group's handle is its number), and
  the commands the operator will type at the debugger's prompt, in order. When they are
  used up the prompt waits.
\<close>

record world =
  trace :: "event list"
  groups_created :: nat
  operator :: "pdb_cmd list"

definition emit :: "event \<Rightarrow> world \<Rightarrow> world" where
  "emit ev w = w\<lparr>trace := trace w @ [ev]\<rparr>"

text \<open>
  What the libraries compute, as parameters. \<open>'m\<close> is a module handle.
\<close>

record ('m, 'v) ext =
  ext_unwrap_lightning_module :: "'m \<Rightarrow> 'm"
  ext_trainer_precision :: "'m \<Rightarrow> string"
  ext_LightningFullyShardedModule :: "'m \<Rightarrow> 'm"
  ext_auto_wrap :: "wrap_config \<Rightarrow> 'm \<Rightarrow> 'm"
  ext_wrap :: "wrap_config \<Rightarrow> 'm \<Rightarrow> 'm"
  ext_is_fsdp :: "'m \<Rightarrow> bool"
  ext_modules :: "'m \<Rightarrow> 'm list"
  ext_configure_sync_batchnorm :: "'m \<Rightarrow> 'm"
  ext_state_dict :: "'m \<Rightarrow> 'v dict"
  ext_model_step :: "step \<Rightarrow> 'm \<Rightarrow> 'v list \<Rightarrow> 'v dict \<Rightarrow> 'v"
  ext_super_step :: "step \<Rightarrow> 'm \<Rightarrow> 'v list \<Rightarrow> 'v dict \<Rightarrow> 'v"

subsection \<open>The plugin's state and its constructor\<close>

text \<open>
  The attributes of the base class \<^verbatim>\<open>DDPPlugin\<close> that the plugin reads. The base class
  is not part of the file: its constructor is a parameter of \<open>init\<close>.
\<close>

record 'm ddp_plugin =
  parallel_devices :: "device list option"
  num_nodes :: "int option"
  cluster_environment :: "string option"
  sync_batchnorm :: "bool option"
  model :: 'm
  root_device :: device

record 'm plugin = "'m ddp_plugin" +
  cpu_offload :: bool
  move_grads_to_cpu :: "bool option"
  flatten_parameters :: bool
  reshard_after_forward :: bool
  fp32_reduce_scatter :: "bool option"
  compute_dtype :: "string option"
  bucket_cap_mb :: int
  module_wrap :: bool
  module_auto_wrap :: bool
  min_num_params :: int
  process_group_attr :: "nat option"

text \<open>
  The constructor's arguments and their defaults. The default of \<^verbatim>\<open>min_num_params\<close> is
  written \<^verbatim>\<open>1e8\<close> in the source; the plugin only hands the number on.
\<close>

record init_args =
  arg_cpu_offload :: bool
  arg_flatten_parameters :: bool
  arg_reshard_after_forward :: bool
  arg_move_grads_to_cpu :: "bool option"
  arg_fp32_reduce_scatter :: "bool option"
  arg_compute_dtype :: "string option"
  arg_bucket_cap_mb :: int
  arg_module_wrap :: bool
  arg_module_auto_wrap :: bool
  arg_min_num_params :: int
  arg_parallel_devices :: "device list option"
  arg_num_nodes :: "int option"
  arg_cluster_environment :: "string option"
  arg_sync_batchnorm :: "bool option"

definition default_args :: init_args where
  "default_args =
     \<lparr>arg_cpu_offload = False, arg_flatten_parameters = True,
      arg_reshard_after_forward = True, arg_move_grads_to_cpu = None,
      arg_fp32_reduce_scatter = None, arg_compute_dtype = None,
      arg_bucket_cap_mb = 25, arg_module_wrap = False, arg_module_auto_wrap = False,
      arg_min_num_params = 100000000, arg_parallel_devices = None, arg_num_nodes = None,
      arg_cluster_environment = None, arg_sync_batchnorm = None\<rparr>"

type_synonym 'm super_init =
  "device list option \<Rightarrow> int option \<Rightarrow> string option \<Rightarrow> bool option \<Rightarrow> 'm ddp_plugin"

text \<open>
  \<^verbatim>\<open>FullyShardedPlugin.__init__\<close>. \<open>available\<close> is the module constant
  \<^verbatim>\<open>_FAIRSCALE_FULLY_SHARDED_AVAILABLE\<close>.
\<close>

definition init :: "bool \<Rightarrow> 'm super_init \<Rightarrow> init_args \<Rightarrow> error + 'm plugin" where
  "init available super_init a =
     (if \<not> available then
        Inl (MisconfigurationException
          ''Full Sharded Training is not available. Install the latest FairScale via `pip install fairscale -U`'')
      else if arg_module_wrap a \<or> arg_module_auto_wrap a then
        Inl (MisconfigurationException
          (''Currently wrapping the ``LightningModule`` in the plugin is not supported. '' @
           ''Please wrap your model manually in the ``configure_sharded_model`` function''))
      else
        (let b = super_init (arg_parallel_devices a) (arg_num_nodes a)
                   (arg_cluster_environment a) (arg_sync_batchnorm a)
         in Inr \<lparr>parallel_devices = parallel_devices b, num_nodes = num_nodes b,
                 cluster_environment = cluster_environment b,
                 sync_batchnorm = sync_batchnorm b, model = model b,
                 root_device = root_device b,
                 cpu_offload = arg_cpu_offload a,
                 move_grads_to_cpu = arg_move_grads_to_cpu a,
                 flatten_parameters = arg_flatten_parameters a,
                 reshard_after_forward = arg_reshard_after_forward a,
                 fp32_reduce_scatter = arg_fp32_reduce_scatter a,
                 compute_dtype = arg_compute_dtype a,
                 bucket_cap_mb = arg_bucket_cap_mb a,
                 module_wrap = arg_module_wrap a,
                 module_auto_wrap = arg_module_auto_wrap a,
                 min_num_params = arg_min_num_params a,
                 process_group_attr = None\<rparr>))"

subsection \<open>Properties and methods\<close>

definition module_wrapped :: "'m plugin \<Rightarrow> bool" where
  "module_wrapped p = (module_wrap p \<or> module_auto_wrap p)"

text \<open>
  \<^verbatim>\<open>torch.distributed.new_group()\<close> with no arguments: a new group over all ranks; the
  handle is the number of groups made before it.
\<close>

definition new_group :: "world \<Rightarrow> nat \<times> world" where
  "new_group w =
     (groups_created w,
      emit (E_new_group (groups_created w)) (w\<lparr>groups_created := Suc (groups_created w)\<rparr>))"

definition process_group :: "'m plugin \<Rightarrow> world \<Rightarrow> nat \<times> 'm plugin \<times> world" where
  "process_group p w =
     (case process_group_attr p of
        None \<Rightarrow> (let (g, w') = new_group w in (g, p\<lparr>process_group_attr := Some g\<rparr>, w'))
      | Some g \<Rightarrow> (g, p, w))"

definition lightning_module :: "('m, 'v) ext \<Rightarrow> 'm plugin \<Rightarrow> 'm" where
  "lightning_module e p = ext_unwrap_lightning_module e (model p)"

definition setup_distributed :: "'m plugin \<Rightarrow> world \<Rightarrow> 'm plugin \<times> world" where
  "setup_distributed p w =
     (let w1 = emit E_super_setup_distributed w
      in if device_type (root_device p) = ''cuda''
         then (p, emit (E_cuda_set_device (root_device p)) w1)
         else (p, w1))"

text \<open>
  \<^verbatim>\<open>model_sharded_context\<close> is a context manager: \<open>enter\<close> is the part up to the
  \<^verbatim>\<open>yield\<close> (it reads the trainer's precision, then evaluates the keyword arguments,
  the process group among them, and opens \<^verbatim>\<open>enable_wrap\<close>), \<open>exit\<close> the part after it.
\<close>

definition model_sharded_context_enter ::
  "('m, 'v) ext \<Rightarrow> 'm plugin \<Rightarrow> world \<Rightarrow> wrap_config \<times> 'm plugin \<times> world" where
  "model_sharded_context_enter e p w =
     (let precision = ext_trainer_precision e (lightning_module e p);
          (g, p1, w1) = process_group p w;
          cfg = \<lparr>wc_min_num_params = min_num_params p1,
                 wc_process_group = g,
                 wc_cpu_offload = cpu_offload p1,
                 wc_move_grads_to_cpu = move_grads_to_cpu p1,
                 wc_flatten_parameters = flatten_parameters p1,
                 wc_mixed_precision = (precision = ''mixed''),
                 wc_reshard_after_forward = reshard_after_forward p1,
                 wc_fp32_reduce_scatter = fp32_reduce_scatter p1,
                 wc_compute_dtype = compute_dtype p1,
                 wc_bucket_cap_mb = bucket_cap_mb p1\<rparr>
      in (cfg, p1, emit (E_enable_wrap_enter cfg) w1))"

definition model_sharded_context_exit :: "world \<Rightarrow> world" where
  "model_sharded_context_exit w = emit E_enable_wrap_exit w"

fun any_fsdp :: "('m \<Rightarrow> bool) \<Rightarrow> 'm list \<Rightarrow> bool" where
  "any_fsdp is_fsdp [] = False"
| "any_fsdp is_fsdp (m # ms) = (if is_fsdp m then True else any_fsdp is_fsdp ms)"

definition model_has_nested_fsdp :: "('m, 'v) ext \<Rightarrow> 'm plugin \<Rightarrow> bool" where
  "model_has_nested_fsdp e p = any_fsdp (ext_is_fsdp e) (ext_modules e (model p))"

definition model_to_device :: "'m plugin \<Rightarrow> world \<Rightarrow> 'm plugin \<times> world" where
  "model_to_device p w =
     (p, emit (E_lightning_module_to (root_device p)) (emit (E_model_to (root_device p)) w))"

text \<open>The body of the \<^verbatim>\<open>with\<close> block of \<open>configure_ddp\<close>.\<close>

definition wrap_model ::
  "('m, 'v) ext \<Rightarrow> wrap_config \<Rightarrow> 'm plugin \<Rightarrow> world \<Rightarrow> 'm plugin \<times> world" where
  "wrap_model e cfg p w =
     (if module_auto_wrap p \<and> \<not> model_has_nested_fsdp e p then
        (let p1 = p\<lparr>model := ext_auto_wrap e cfg (ext_LightningFullyShardedModule e (model p))\<rparr>;
             w1 = emit E_auto_wrap w
         in if \<not> ext_is_fsdp e (model p1)
            then (p1\<lparr>model := ext_wrap e cfg (model p1)\<rparr>, emit E_wrap w1)
            else (p1, w1))
      else if module_wrap p then
        (p\<lparr>model := ext_wrap e cfg (ext_LightningFullyShardedModule e (model p))\<rparr>,
         emit E_wrap w)
      else (p, w))"

definition configure_ddp :: "('m, 'v) ext \<Rightarrow> 'm plugin \<Rightarrow> world \<Rightarrow> 'm plugin \<times> world" where
  "configure_ddp e p w =
     (let (cfg, p1, w1) = model_sharded_context_enter e p w;
          (p2, w2) = wrap_model e cfg p1 w1;
          w3 = model_sharded_context_exit w2;
          (p4, w4) = (if \<not> cpu_offload p2 then model_to_device p2 w3 else (p2, w3))
      in (p4, emit E_setup_optimizers w4))"

definition pre_dispatch :: "('m, 'v) ext \<Rightarrow> 'm plugin \<Rightarrow> world \<Rightarrow> 'm plugin \<times> world" where
  "pre_dispatch e p w =
     (let (p1, w1) =
            (if sync_batchnorm p = Some True
             then (p\<lparr>model := ext_configure_sync_batchnorm e (model p)\<rparr>,
                   emit E_configure_sync_batchnorm w)
             else (p, w));
          (p2, w2) = configure_ddp e p1 w1
      in (p2, emit E_barrier w2))"

text \<open>
  \<^verbatim>\<open>pdb.set_trace()\<close>: the debugger stops the caller and reads a command from the
  operator. \<^verbatim>\<open>continue\<close> lets the caller go on, \<^verbatim>\<open>quit\<close> raises \<^verbatim>\<open>BdbQuit\<close> in it.
\<close>

definition pdb_set_trace :: "world \<Rightarrow> unit outcome \<times> world" where
  "pdb_set_trace w =
     (let w1 = emit E_pdb_set_trace w
      in case operator w1 of
           [] \<Rightarrow> (Suspended, w1)
         | Continue # cs \<Rightarrow> (Returns (), w1\<lparr>operator := cs\<rparr>)
         | Quit # cs \<Rightarrow> (Raises BdbQuit, w1\<lparr>operator := cs\<rparr>))"

text \<open>
  The dictionary comprehension of \<open>collate_state_dict\<close>, key by key in the order of
  \<^verbatim>\<open>state_dict.keys()\<close>: the new key is the third component of
  \<^verbatim>\<open>k.partition('module.')\<close>, the value is \<^verbatim>\<open>state_dict[k]\<close>.
\<close>

fun strip_items :: "'v dict \<Rightarrow> string list \<Rightarrow> 'v dict \<Rightarrow> error + 'v dict" where
  "strip_items sd [] acc = Inr acc"
| "strip_items sd (k # ks) acc =
     (case partition_str k ''module.'' of
        Inl err \<Rightarrow> Inl err
      | Inr (h, s, t) \<Rightarrow>
          (case dict_getitem sd k of
             Inl err \<Rightarrow> Inl err
           | Inr v \<Rightarrow> strip_items sd ks (dict_setitem t v acc)))"

definition collate_state_dict ::
  "('m, 'v) ext \<Rightarrow> 'm plugin \<Rightarrow> world \<Rightarrow> 'v dict outcome \<times> world" where
  "collate_state_dict e p w =
     (let state_dict = ext_state_dict e (model p);
          w1 = emit E_state_dict w;
          (r, w2) = pdb_set_trace w1
      in case r of
           Suspended \<Rightarrow> (Suspended, w2)
         | Raises err \<Rightarrow> (Raises err, w2)
         | Returns u \<Rightarrow>
             (if module_wrapped p then
                (case strip_items state_dict (dict_keys state_dict) [] of
                   Inl err \<Rightarrow> (Raises err, w2)
                 | Inr d \<Rightarrow> (Returns d, w2))
              else (Returns state_dict, w2)))"

definition on_save ::
  "('m, 'v) ext \<Rightarrow> 'm plugin \<Rightarrow> 'v pyval dict \<Rightarrow> world \<Rightarrow> 'v pyval dict outcome \<times> world" where
  "on_save e p checkpoint w =
     (case collate_state_dict e p w of
        (Returns state_dict, w1) \<Rightarrow>
          (Returns (dict_setitem ''state_dict'' (DictVal state_dict) checkpoint), w1)
      | (Raises err, w1) \<Rightarrow> (Raises err, w1)
      | (Suspended, w1) \<Rightarrow> (Suspended, w1))"

definition setup_optimizers_in_pre_dispatch :: "'m plugin \<Rightarrow> bool" where
  "setup_optimizers_in_pre_dispatch p = True"

text \<open>
  The four step methods. Each returns what the callee returns; the trace records which
  callee it was.
\<close>

definition training_step ::
  "('m, 'v) ext \<Rightarrow> 'm plugin \<Rightarrow> 'v list \<Rightarrow> 'v dict \<Rightarrow> world \<Rightarrow> 'v \<times> world" where
  "training_step e p args kwargs w =
     (if module_wrapped p
      then (ext_super_step e TrainingStep (model p) args kwargs, emit (E_super_step TrainingStep) w)
      else (ext_model_step e TrainingStep (model p) args kwargs, emit (E_model_step TrainingStep) w))"

definition validation_step ::
  "('m, 'v) ext \<Rightarrow> 'm plugin \<Rightarrow> 'v list \<Rightarrow> 'v dict \<Rightarrow> world \<Rightarrow> 'v \<times> world" where
  "validation_step e p args kwargs w =
     (if module_wrapped p
      then (ext_super_step e ValidationStep (model p) args kwargs, emit (E_super_step ValidationStep) w)
      else (ext_model_step e ValidationStep (model p) args kwargs, emit (E_model_step ValidationStep) w))"

definition test_step ::
  "('m, 'v) ext \<Rightarrow> 'm plugin \<Rightarrow> 'v list \<Rightarrow> 'v dict \<Rightarrow> world \<Rightarrow> 'v \<times> world" where
  "test_step e p args kwargs w =
     (if module_wrapped p
      then (ext_super_step e TestStep (model p) args kwargs, emit (E_super_step TestStep) w)
      else (ext_model_step e TestStep (model p) args kwargs, emit (E_model_step TestStep) w))"

definition predict_step ::
  "('m, 'v) ext \<Rightarrow> 'm plugin \<Rightarrow> 'v list \<Rightarrow> 'v dict \<Rightarrow> world \<Rightarrow> 'v \<times> world" where
  "predict_step e p args kwargs w =
     (if module_wrapped p
      then (ext_super_step e PredictStep (model p) args kwargs, emit (E_super_step PredictStep) w)
      else (ext_model_step e PredictStep (model p) args kwargs, emit (E_model_step PredictStep) w))"

definition post_training_step :: "'m plugin \<Rightarrow> world \<Rightarrow> 'm plugin \<times> world" where
  "post_training_step p w = (p, w)"

fun step_method ::
  "step \<Rightarrow> ('m, 'v) ext \<Rightarrow> 'm plugin \<Rightarrow> 'v list \<Rightarrow> 'v dict \<Rightarrow> world \<Rightarrow> 'v \<times> world" where
  "step_method TrainingStep = training_step"
| "step_method ValidationStep = validation_step"
| "step_method TestStep = test_step"
| "step_method PredictStep = predict_step"

subsection \<open>The life of an instance\<close>

text \<open>
  What can be done to an instance after its construction: the trainer assigns the model
  and the root device (attributes of the base class), and anyone may read a property or
  call a method. A life is a list of such calls; \<open>run\<close> threads the plugin and the world
  through it and drops the values returned. The class method \<^verbatim>\<open>register_plugins\<close>
  touches no instance and is left out.
\<close>

datatype ('m, 'v) call =
    Set_model 'm
  | Set_root_device device
  | Get_process_group
  | Get_lightning_module
  | Get_module_wrapped
  | Get_setup_optimizers_in_pre_dispatch
  | Call_setup_distributed
  | Call_model_sharded_context
  | Call_configure_ddp
  | Call_model_to_device
  | Call_pre_dispatch
  | Call_on_save "'v pyval dict"
  | Call_collate_state_dict
  | Call_step step "'v list" "'v dict"
  | Call_post_training_step

fun exec :: "('m, 'v) ext \<Rightarrow> ('m, 'v) call \<Rightarrow> 'm plugin \<times> world \<Rightarrow> 'm plugin \<times> world" where
  "exec e (Set_model m) (p, w) = (p\<lparr>model := m\<rparr>, w)"
| "exec e (Set_root_device d) (p, w) = (p\<lparr>root_device := d\<rparr>, w)"
| "exec e Get_process_group (p, w) = snd (process_group p w)"
| "exec e Get_lightning_module (p, w) = (p, w)"
| "exec e Get_module_wrapped (p, w) = (p, w)"
| "exec e Get_setup_optimizers_in_pre_dispatch (p, w) = (p, w)"
| "exec e Call_setup_distributed (p, w) = setup_distributed p w"
| "exec e Call_model_sharded_context (p, w) =
     (let (cfg, p1, w1) = model_sharded_context_enter e p w
      in (p1, model_sharded_context_exit w1))"
| "exec e Call_configure_ddp (p, w) = configure_ddp e p w"
| "exec e Call_model_to_device (p, w) = model_to_device p w"
| "exec e Call_pre_dispatch (p, w) = pre_dispatch e p w"
| "exec e (Call_on_save checkpoint) (p, w) = (p, snd (on_save e p checkpoint w))"
| "exec e Call_collate_state_dict (p, w) = (p, snd (collate_state_dict e p w))"
| "exec e (Call_step s args kwargs) (p, w) = (p, snd (step_method s e p args kwargs w))"
| "exec e Call_post_training_step (p, w) = post_training_step p w"

fun run :: "('m, 'v) ext \<Rightarrow> ('m, 'v) call list \<Rightarrow> 'm plugin \<times> world \<Rightarrow> 'm plugin \<times> world" where
  "run e [] s = s"
| "run e (c # cs) s = run e cs (exec e c s)"

text \<open>How often \<^verbatim>\<open>torch.distributed.new_group\<close> was called, read off a trace.\<close>

fun is_new_group :: "event \<Rightarrow> bool" where
  "is_new_group (E_new_group g) = True"
| "is_new_group ev = False"

definition new_group_calls :: "world \<Rightarrow> nat" where
  "new_group_calls w = length (filter is_new_group (trace w))"

subsection \<open>A small concrete setting\<close>

text \<open>
  Modules are named by strings and tensors by numbers. Wrapping prefixes the name; the
  state dict of every module is the one of the specification's example.
\<close>

definition example_ext :: "(string, nat) ext" where
  "example_ext =
     \<lparr>ext_unwrap_lightning_module = (\<lambda>m. m),
      ext_trainer_precision = (\<lambda>m. ''mixed''),
      ext_LightningFullyShardedModule = (\<lambda>m. ''LFSM:'' @ m),
      ext_auto_wrap = (\<lambda>cfg m. ''FSDP:'' @ m),
      ext_wrap = (\<lambda>cfg m. ''FSDP:'' @ m),
      ext_is_fsdp = (\<lambda>m. prefix ''FSDP:'' m),
      ext_modules = (\<lambda>m. [m]),
      ext_configure_sync_batchnorm = (\<lambda>m. m),
      ext_state_dict = (\<lambda>m. [(''module.layer.weight'', 1), (''module.layer.bias'', 2)]),
      ext_model_step = (\<lambda>s m args kwargs. 10),
      ext_super_step = (\<lambda>s m args kwargs. 20)\<rparr>"

definition example_super_init :: "string super_init" where
  "example_super_init devs nodes env sbn =
     \<lparr>parallel_devices = devs, num_nodes = nodes, cluster_environment = env,
      sync_batchnorm = sbn, model = ''net'', root_device = Device ''cuda'' (Some 0)\<rparr>"

definition example_world :: world where
  "example_world = \<lparr>trace = [], groups_created = 0, operator = [Continue]\<rparr>"

definition example_plugin :: "string plugin" where
  "example_plugin =
     \<lparr>parallel_devices = None, num_nodes = None, cluster_environment = None,
      sync_batchnorm = None, model = ''net'', root_device = Device ''cuda'' (Some 0),
      cpu_offload = False, move_grads_to_cpu = None, flatten_parameters = True,
      reshard_after_forward = True, fp32_reduce_scatter = None, compute_dtype = None,
      bucket_cap_mb = 25, module_wrap = False, module_auto_wrap = False,
      min_num_params = 100000000, process_group_attr = None\<rparr>"

subsection \<open>Reading traces\<close>

text \<open>
  A stretch of trace in which the plugin wrapped nothing and sent no step to the base
  strategy.
\<close>

definition unwrapped_events :: "event list \<Rightarrow> bool" where
  "unwrapped_events evs =
     (E_wrap \<notin> set evs \<and> E_auto_wrap \<notin> set evs \<and> (\<forall>s. E_super_step s \<notin> set evs))"

text \<open>
  What one call may do to the memoised process group: leave the attribute and the number
  of \<^verbatim>\<open>new_group\<close> calls as they are, or fill the empty attribute with one such call.
\<close>

definition memo_step :: "'m plugin \<times> world \<Rightarrow> 'm plugin \<times> world \<Rightarrow> bool" where
  "memo_step s t =
     ((process_group_attr (fst t) = process_group_attr (fst s)
        \<and> new_group_calls (snd t) = new_group_calls (snd s))
      \<or> (process_group_attr (fst s) = None \<and> process_group_attr (fst t) \<noteq> None
        \<and> new_group_calls (snd t) = Suc (new_group_calls (snd s))))"

section \<open>Construction\<close>

text \<open>
  C1 as stated (one of the two wrap flags alone is accepted) fails on the constructor:
  its guard is \<^verbatim>\<open>module_wrap or module_auto_wrap\<close>, so a single flag is rejected as
  well, here with the dependency installed and every other argument at its default.
\<close>

theorem init_one_wrap_flag_counterexample:
  "init True example_super_init (default_args\<lparr>arg_module_wrap := True\<rparr>) =
     Inl (MisconfigurationException
       (''Currently wrapping the ``LightningModule`` in the plugin is not supported. '' @
        ''Please wrap your model manually in the ``configure_sharded_model`` function''))
   \<and> init True example_super_init (default_args\<lparr>arg_module_auto_wrap := True\<rparr>) =
     Inl (MisconfigurationException
       (''Currently wrapping the ``LightningModule`` in the plugin is not supported. '' @
        ''Please wrap your model manually in the ``configure_sharded_model`` function''))"
  by (simp add: init_def default_args_def)

text \<open>
  C1, amended: with the dependency installed, construction raises no configuration error
  exactly when neither wrap flag is set; with a wrap flag set it raises
  \<^verbatim>\<open>MisconfigurationException\<close>.
\<close>

theorem init_succeeds_iff_no_wrap_flag:
  "available \<Longrightarrow>
     (arg_module_wrap a \<or> arg_module_auto_wrap a \<longrightarrow>
        (\<exists>msg. init available si a = Inl (MisconfigurationException msg)))
   \<and> (\<not> arg_module_wrap a \<and> \<not> arg_module_auto_wrap a \<longrightarrow>
        (\<exists>p. init available si a = Inr p))"
  by (simp add: init_def Let_def)

theorem init_succeeds_iff_no_wrap_flag_witness:
  "(\<exists>msg. init True example_super_init (default_args\<lparr>arg_module_auto_wrap := True\<rparr>)
      = Inl (MisconfigurationException msg))
   \<and> (\<exists>p. init True example_super_init default_args = Inr p)"
  using init_succeeds_iff_no_wrap_flag
          [of True "default_args\<lparr>arg_module_auto_wrap := True\<rparr>" example_super_init]
        init_succeeds_iff_no_wrap_flag [of True default_args example_super_init]
  by (simp add: default_args_def)

text \<open>
  C2: with both \<^verbatim>\<open>module_wrap\<close> and \<^verbatim>\<open>module_auto_wrap\<close> true the constructor raises
  \<^verbatim>\<open>MisconfigurationException\<close>, whatever the other arguments are and whether or not
  the dependency is installed; no instance is made.
\<close>

theorem init_both_wrap_flags_raise:
  "arg_module_wrap a \<Longrightarrow> arg_module_auto_wrap a \<Longrightarrow>
   \<exists>msg. init available si a = Inl (MisconfigurationException msg)"
  by (simp add: init_def)

theorem init_both_wrap_flags_raise_witness:
  "\<exists>msg. init True example_super_init
            (default_args\<lparr>arg_module_wrap := True, arg_module_auto_wrap := True\<rparr>)
          = Inl (MisconfigurationException msg)"
  using init_both_wrap_flags_raise
          [of "default_args\<lparr>arg_module_wrap := True, arg_module_auto_wrap := True\<rparr>"
              True example_super_init]
  by simp

section \<open>What the methods leave unchanged\<close>


lemma trace_emit [simp]: "trace (emit ev w) = trace w @ [ev]"
  and groups_created_emit [simp]: "groups_created (emit ev w) = groups_created w"
  and operator_emit [simp]: "operator (emit ev w) = operator w"
  by (simp_all add: emit_def)


lemma process_group_frame:
  assumes "process_group p w = (g, p', w')"
  shows "module_wrap p' = module_wrap p" "module_auto_wrap p' = module_auto_wrap p"
    "model p' = model p" "root_device p' = root_device p" "cpu_offload p' = cpu_offload p"
    "sync_batchnorm p' = sync_batchnorm p"
    "\<exists>evs. trace w' = trace w @ evs \<and> (\<forall>ev \<in> set evs. is_new_group ev)"
    "operator w' = operator w"
  using assms
  by (auto simp: process_group_def new_group_def split: option.splits)

lemma enter_frame:
  assumes "model_sharded_context_enter e p w = (cfg, p', w')"
  shows "module_wrap p' = module_wrap p" "module_auto_wrap p' = module_auto_wrap p"
    "model p' = model p" "root_device p' = root_device p" "cpu_offload p' = cpu_offload p"
    "sync_batchnorm p' = sync_batchnorm p"
    "\<exists>evs. trace w' = trace w @ evs \<and>
        (\<forall>ev \<in> set evs. is_new_group ev \<or> ev = E_enable_wrap_enter cfg)"
    "operator w' = operator w"
proof -
  obtain g p1 w1 where pg: "process_group p w = (g, p1, w1)"
    by (cases "process_group p w") auto
  from assms pg have p': "p' = p1" and w': "w' = emit (E_enable_wrap_enter cfg) w1"
    by (auto simp: model_sharded_context_enter_def Let_def)
  from process_group_frame [OF pg] p' w'
  show "module_wrap p' = module_wrap p" "module_auto_wrap p' = module_auto_wrap p"
    "model p' = model p" "root_device p' = root_device p" "cpu_offload p' = cpu_offload p"
    "sync_batchnorm p' = sync_batchnorm p" "operator w' = operator w"
    by simp_all
  from process_group_frame(7) [OF pg] obtain evs
    where "trace w1 = trace w @ evs" "\<forall>ev \<in> set evs. is_new_group ev" by blast
  then have "trace w' = trace w @ (evs @ [E_enable_wrap_enter cfg]) \<and>
        (\<forall>ev \<in> set (evs @ [E_enable_wrap_enter cfg]). is_new_group ev \<or> ev = E_enable_wrap_enter cfg)"
    using w' by auto
  then show "\<exists>evs. trace w' = trace w @ evs \<and>
        (\<forall>ev \<in> set evs. is_new_group ev \<or> ev = E_enable_wrap_enter cfg)"
    by blast
qed

lemma wrap_model_unwrapped:
  "\<not> module_wrap p \<Longrightarrow> \<not> module_auto_wrap p \<Longrightarrow> wrap_model e cfg p w = (p, w)"
  by (simp add: wrap_model_def)


lemma collate_state_dict_trace:
  "trace (snd (collate_state_dict e p w)) = trace w @ [E_state_dict, E_pdb_set_trace]"
  by (simp add: collate_state_dict_def pdb_set_trace_def Let_def
           split: list.splits pdb_cmd.splits sum.splits)

lemma on_save_trace:
  "trace (snd (on_save e p checkpoint w)) = trace w @ [E_state_dict, E_pdb_set_trace]"
proof -
  obtain r w1 where c: "collate_state_dict e p w = (r, w1)"
    by (cases "collate_state_dict e p w") auto
  with collate_state_dict_trace [of e p w]
  have "trace w1 = trace w @ [E_state_dict, E_pdb_set_trace]" by simp
  with c show ?thesis
    by (cases r) (simp_all add: on_save_def)
qed

lemma step_method_unwrapped:
  "\<not> module_wrapped p \<Longrightarrow>
   step_method s e p args kwargs w =
     (ext_model_step e s (model p) args kwargs, emit (E_model_step s) w)"
  by (cases s)
     (simp_all add: training_step_def validation_step_def test_step_def predict_step_def)

lemma configure_ddp_unwrapped:
  assumes "\<not> module_wrap p" "\<not> module_auto_wrap p" "configure_ddp e p w = (p', w')"
  shows "\<not> module_wrap p' \<and> \<not> module_auto_wrap p' \<and>
         (\<exists>evs. trace w' = trace w @ evs \<and> unwrapped_events evs)"
proof -
  obtain cfg p1 w1 where en: "model_sharded_context_enter e p w = (cfg, p1, w1)"
    by (cases "model_sharded_context_enter e p w") auto
  note fr = enter_frame [OF en]
  from fr assms have nw: "\<not> module_wrap p1" "\<not> module_auto_wrap p1" by simp_all
  from fr(7) obtain evs where evs: "trace w1 = trace w @ evs"
    "\<forall>ev \<in> set evs. is_new_group ev \<or> ev = E_enable_wrap_enter cfg" by blast
  from evs(2) have clean: "unwrapped_events evs"
    by (auto simp: unwrapped_events_def)
  from assms(3) en wrap_model_unwrapped [OF nw, of e cfg w1]
  have p': "p' = p1"
    and w': "w' = emit E_setup_optimizers
               (if \<not> cpu_offload p1
                then emit (E_lightning_module_to (root_device p1))
                       (emit (E_model_to (root_device p1)) (emit E_enable_wrap_exit w1))
                else emit E_enable_wrap_exit w1)"
    by (auto simp: configure_ddp_def model_sharded_context_exit_def model_to_device_def
             Let_def split: if_splits)
  from w' evs(1) have "\<exists>more. trace w' = trace w @ (evs @ more) \<and> unwrapped_events more"
    by (auto simp: unwrapped_events_def)
  then obtain more where "trace w' = trace w @ (evs @ more)" "unwrapped_events more" by blast
  with clean have "trace w' = trace w @ (evs @ more) \<and> unwrapped_events (evs @ more)"
    by (auto simp: unwrapped_events_def)
  with p' nw show ?thesis by blast
qed

lemma exec_unwrapped:
  assumes "\<not> module_wrap p" "\<not> module_auto_wrap p" "exec e c (p, w) = (p', w')"
  shows "\<not> module_wrap p' \<and> \<not> module_auto_wrap p' \<and>
         (\<exists>evs. trace w' = trace w @ evs \<and> unwrapped_events evs)"
proof (cases c)
  case (Set_model m)
  with assms show ?thesis by (auto simp: unwrapped_events_def)
next
  case (Set_root_device d)
  with assms show ?thesis by (auto simp: unwrapped_events_def)
next
  case Get_process_group
  with assms obtain g where pg: "process_group p w = (g, p', w')"
    by (cases "process_group p w") auto
  from process_group_frame(7) [OF pg] obtain evs
    where "trace w' = trace w @ evs" "\<forall>ev \<in> set evs. is_new_group ev" by blast
  then have "trace w' = trace w @ evs \<and> unwrapped_events evs"
    by (auto simp: unwrapped_events_def)
  with process_group_frame(1,2) [OF pg] assms show ?thesis by blast
next
  case Get_lightning_module
  with assms show ?thesis by (auto simp: unwrapped_events_def)
next
  case Get_module_wrapped
  with assms show ?thesis by (auto simp: unwrapped_events_def)
next
  case Get_setup_optimizers_in_pre_dispatch
  with assms show ?thesis by (auto simp: unwrapped_events_def)
next
  case Call_setup_distributed
  with assms show ?thesis
    by (auto simp: setup_distributed_def Let_def unwrapped_events_def split: if_splits)
next
  case Call_model_sharded_context
  obtain cfg p1 w1 where en: "model_sharded_context_enter e p w = (cfg, p1, w1)"
    by (cases "model_sharded_context_enter e p w") auto
  with assms Call_model_sharded_context
  have p': "p' = p1" and w': "w' = emit E_enable_wrap_exit w1"
    by (auto simp: model_sharded_context_exit_def)
  from enter_frame(7) [OF en] obtain evs where evs: "trace w1 = trace w @ evs"
    "\<forall>ev \<in> set evs. is_new_group ev \<or> ev = E_enable_wrap_enter cfg" by blast
  then have "trace w' = trace w @ (evs @ [E_enable_wrap_exit]) \<and>
             unwrapped_events (evs @ [E_enable_wrap_exit])"
    using w' by (auto simp: unwrapped_events_def)
  with enter_frame(1,2) [OF en] p' assms show ?thesis by blast
next
  case Call_configure_ddp
  with assms configure_ddp_unwrapped [of p e w p' w'] show ?thesis by simp
next
  case Call_model_to_device
  with assms show ?thesis
    by (auto simp: model_to_device_def unwrapped_events_def)
next
  case Call_pre_dispatch
  let ?p1 = "if sync_batchnorm p = Some True
             then p\<lparr>model := ext_configure_sync_batchnorm e (model p)\<rparr> else p"
  let ?w1 = "if sync_batchnorm p = Some True then emit E_configure_sync_batchnorm w else w"
  obtain p2 w2 where cd: "configure_ddp e ?p1 ?w1 = (p2, w2)"
    by (cases "configure_ddp e ?p1 ?w1") auto
  with assms Call_pre_dispatch have p': "p' = p2" and w': "w' = emit E_barrier w2"
    by (auto simp: pre_dispatch_def split: if_splits)
  from assms have "\<not> module_wrap ?p1" "\<not> module_auto_wrap ?p1" by simp_all
  from configure_ddp_unwrapped [OF this cd] obtain evs where
    nw: "\<not> module_wrap p2" "\<not> module_auto_wrap p2" and
    evs: "trace w2 = trace ?w1 @ evs" "unwrapped_events evs" by blast
  have "\<exists>pre. trace ?w1 = trace w @ pre \<and> unwrapped_events pre"
    by (auto simp: unwrapped_events_def)
  then obtain pre where pre: "trace ?w1 = trace w @ pre" "unwrapped_events pre" by blast
  with evs w' have "trace w' = trace w @ (pre @ evs @ [E_barrier]) \<and>
       unwrapped_events (pre @ evs @ [E_barrier])"
    by (auto simp: unwrapped_events_def)
  with nw p' show ?thesis by blast
next
  case (Call_on_save checkpoint)
  with assms on_save_trace [of e p checkpoint w] show ?thesis
    by (auto simp: unwrapped_events_def)
next
  case Call_collate_state_dict
  with assms collate_state_dict_trace [of e p w] show ?thesis
    by (auto simp: unwrapped_events_def)
next
  case (Call_step s args kwargs)
  from assms have "\<not> module_wrapped p" by (simp add: module_wrapped_def)
  from step_method_unwrapped [OF this, of s e args kwargs w] Call_step assms show ?thesis
    by (auto simp: unwrapped_events_def)
next
  case Call_post_training_step
  with assms show ?thesis by (auto simp: post_training_step_def unwrapped_events_def)
qed

lemma run_unwrapped:
  "\<not> module_wrap p \<Longrightarrow> \<not> module_auto_wrap p \<Longrightarrow> run e cs (p, w) = (p', w') \<Longrightarrow>
   \<not> module_wrap p' \<and> \<not> module_auto_wrap p' \<and>
   (\<exists>evs. trace w' = trace w @ evs \<and> unwrapped_events evs)"
proof (induction cs arbitrary: p w)
  case Nil
  then show ?case by (auto simp: unwrapped_events_def)
next
  case (Cons c cs)
  obtain p1 w1 where ex: "exec e c (p, w) = (p1, w1)"
    by (cases "exec e c (p, w)") auto
  from exec_unwrapped [OF Cons.prems(1,2) ex] obtain evs where
    nw: "\<not> module_wrap p1" "\<not> module_auto_wrap p1" and
    evs: "trace w1 = trace w @ evs" "unwrapped_events evs" by blast
  from Cons.prems(3) ex have "run e cs (p1, w1) = (p', w')" by simp
  from Cons.IH [OF nw this] obtain more where
    nw': "\<not> module_wrap p'" "\<not> module_auto_wrap p'" and
    more: "trace w' = trace w1 @ more" "unwrapped_events more" by blast
  from evs more have "trace w' = trace w @ (evs @ more) \<and> unwrapped_events (evs @ more)"
    by (auto simp: unwrapped_events_def)
  with nw' show ?case by blast
qed

lemma init_Inr_flags:
  "init available si a = Inr p \<Longrightarrow>
   \<not> module_wrap p \<and> \<not> module_auto_wrap p \<and> process_group_attr p = None"
  by (auto simp: init_def Let_def split: if_splits)

lemma example_init: "init True example_super_init default_args = Inr example_plugin"
  by (simp add: init_def default_args_def example_super_init_def example_plugin_def)

lemma collate_state_dict_no_input:
  "operator w = [] \<Longrightarrow> fst (collate_state_dict e p w) = Suspended"
  by (simp add: collate_state_dict_def pdb_set_trace_def Let_def)

lemma collate_state_dict_quit:
  "operator w = Quit # cs \<Longrightarrow> fst (collate_state_dict e p w) = Raises BdbQuit"
  by (simp add: collate_state_dict_def pdb_set_trace_def Let_def)

lemma collate_state_dict_continue:
  "operator w = Continue # cs \<Longrightarrow>
   fst (collate_state_dict e p w) =
     (if module_wrapped p
      then (case strip_items (ext_state_dict e (model p))
                   (dict_keys (ext_state_dict e (model p))) [] of
              Inl err \<Rightarrow> Raises err
            | Inr d \<Rightarrow> Returns d)
      else Returns (ext_state_dict e (model p)))"
  by (simp add: collate_state_dict_def pdb_set_trace_def Let_def split: sum.splits)

lemma collate_state_dict_Returns_operator:
  assumes "fst (collate_state_dict e p w) = Returns d"
  shows "\<exists>cs. operator w = Continue # cs"
proof (cases "operator w")
  case Nil
  from collate_state_dict_no_input [OF Nil, of e p] assms show ?thesis by simp
next
  case (Cons c cs)
  show ?thesis
  proof (cases c)
    case Continue
    with Cons show ?thesis by simp
  next
    case Quit
    with Cons have "operator w = Quit # cs" by simp
    from collate_state_dict_quit [OF this, of e p] assms show ?thesis by simp
  qed
qed

section \<open>The wrap flags over the life of an instance\<close>

text \<open>
  C3: an instance that the constructor returned has \<^verbatim>\<open>module_wrap\<close> and
  \<^verbatim>\<open>module_auto_wrap\<close> false, and so has it after any sequence of property reads,
  method calls and model assignments: \<^verbatim>\<open>module_wrapped\<close> stays false, each of the four
  step methods calls the model directly, the wrap branches of \<open>configure_ddp\<close> leave the
  model as it is, and the trace of the whole life holds no wrap and no step of the base
  strategy.
\<close>

theorem constructed_instance_never_wrapped:
  assumes "init available si a = Inr p0" and "run e cs (p0, w0) = (p, w)"
  shows "module_wrap p = False \<and> module_auto_wrap p = False \<and> module_wrapped p = False
     \<and> (\<forall>s args kwargs w'. step_method s e p args kwargs w' =
            (ext_model_step e s (model p) args kwargs, emit (E_model_step s) w'))
     \<and> (\<forall>cfg w'. wrap_model e cfg p w' = (p, w'))
     \<and> (\<exists>evs. trace w = trace w0 @ evs \<and> unwrapped_events evs)"
proof -
  from init_Inr_flags [OF assms(1)] have "\<not> module_wrap p0" "\<not> module_auto_wrap p0"
    by simp_all
  from run_unwrapped [OF this assms(2)]
  have nw: "\<not> module_wrap p" "\<not> module_auto_wrap p"
    and tr: "\<exists>evs. trace w = trace w0 @ evs \<and> unwrapped_events evs" by blast+
  from nw have mw: "\<not> module_wrapped p" by (simp add: module_wrapped_def)
  have "\<forall>s args kwargs w'. step_method s e p args kwargs w' =
            (ext_model_step e s (model p) args kwargs, emit (E_model_step s) w')"
    using step_method_unwrapped [OF mw] by blast
  moreover have "\<forall>cfg w'. wrap_model e cfg p w' = (p, w')"
    using wrap_model_unwrapped [OF nw] by blast
  ultimately show ?thesis using nw mw tr by blast
qed

theorem constructed_instance_never_wrapped_witness:
  "init True example_super_init default_args = Inr example_plugin
   \<and> module_wrapped (fst (run example_ext
        [Call_pre_dispatch, Call_step TrainingStep [] [], Call_collate_state_dict]
        (example_plugin, example_world))) = False"
proof -
  let ?cs = "[Call_pre_dispatch, Call_step TrainingStep [] [], Call_collate_state_dict]"
  let ?r = "run example_ext ?cs (example_plugin, example_world)"
  have r: "?r = (fst ?r, snd ?r)" by simp
  from constructed_instance_never_wrapped [OF example_init r]
  have "module_wrapped (fst ?r) = False" by blast
  with example_init show ?thesis by blast
qed

section \<open>Collecting the state dict\<close>

text \<open>
  C4: every call of \<open>collate_state_dict\<close>, whatever the plugin, the model and the
  world, fetches the state dict and then calls \<^verbatim>\<open>pdb.set_trace()\<close>, and nothing else;
  with no command from the operator the call stays suspended, and it returns a value
  only if the operator answered with \<^verbatim>\<open>continue\<close>.
\<close>

theorem collate_state_dict_enters_debugger:
  "trace (snd (collate_state_dict e p w)) = trace w @ [E_state_dict, E_pdb_set_trace]
   \<and> (operator w = [] \<longrightarrow> fst (collate_state_dict e p w) = Suspended)
   \<and> (\<forall>d. fst (collate_state_dict e p w) = Returns d \<longrightarrow> (\<exists>cs. operator w = Continue # cs))"
proof (intro conjI)
  show "trace (snd (collate_state_dict e p w)) = trace w @ [E_state_dict, E_pdb_set_trace]"
    by (rule collate_state_dict_trace)
  show "operator w = [] \<longrightarrow> fst (collate_state_dict e p w) = Suspended"
    using collate_state_dict_no_input [of w e p] by blast
  show "\<forall>d. fst (collate_state_dict e p w) = Returns d \<longrightarrow> (\<exists>cs. operator w = Continue # cs)"
    using collate_state_dict_Returns_operator [of e p w] by blast
qed

theorem collate_state_dict_enters_debugger_witness:
  "operator (example_world\<lparr>operator := []\<rparr>) = []
   \<and> fst (collate_state_dict example_ext example_plugin (example_world\<lparr>operator := []\<rparr>))
       = Suspended
   \<and> trace (snd (collate_state_dict example_ext example_plugin
        (example_world\<lparr>operator := []\<rparr>))) = [E_state_dict, E_pdb_set_trace]"
  using collate_state_dict_enters_debugger
          [of example_ext example_plugin "example_world\<lparr>operator := []\<rparr>"]
  by (simp add: example_world_def)

text \<open>
  C6: when the module was not wrapped as a whole, what \<open>collate_state_dict\<close> returns is
  the state dict of the model as \<^verbatim>\<open>state_dict()\<close> gave it, keys and values untouched;
  and it does return it once the operator lets the debugger continue.
\<close>

theorem collate_state_dict_not_wrapped:
  assumes "\<not> module_wrapped p"
  shows "(\<forall>d. fst (collate_state_dict e p w) = Returns d \<longrightarrow> d = ext_state_dict e (model p))
   \<and> (\<forall>cs. operator w = Continue # cs \<longrightarrow>
         fst (collate_state_dict e p w) = Returns (ext_state_dict e (model p)))"
proof (intro conjI allI impI)
  fix cs assume "operator w = Continue # cs"
  from collate_state_dict_continue [OF this, of e p] assms
  show "fst (collate_state_dict e p w) = Returns (ext_state_dict e (model p))" by simp
next
  fix d assume r: "fst (collate_state_dict e p w) = Returns d"
  from collate_state_dict_Returns_operator [OF r] obtain cs
    where "operator w = Continue # cs" by blast
  from collate_state_dict_continue [OF this, of e p] assms r
  show "d = ext_state_dict e (model p)" by simp
qed

theorem collate_state_dict_not_wrapped_witness:
  "\<not> module_wrapped example_plugin
   \<and> fst (collate_state_dict example_ext example_plugin example_world)
       = Returns [(''module.layer.weight'', 1), (''module.layer.bias'', 2)]"
proof -
  have nw: "\<not> module_wrapped example_plugin"
    by (simp add: module_wrapped_def example_plugin_def)
  have op: "operator example_world = Continue # []" by (simp add: example_world_def)
  have sd: "ext_state_dict example_ext (model example_plugin)
              = [(''module.layer.weight'', 1), (''module.layer.bias'', 2)]"
    by (simp add: example_ext_def)
  have "fst (collate_state_dict example_ext example_plugin example_world)
          = Returns (ext_state_dict example_ext (model example_plugin))"
    by (rule collate_state_dict_not_wrapped [OF nw, THEN conjunct2, rule_format, OF op])
  with nw show ?thesis by (simp only: sd simp_thms)
qed

section \<open>Step dispatch\<close>

text \<open>
  C8: each of \<open>training_step\<close>, \<open>validation_step\<close>, \<open>test_step\<close> and \<open>predict_step\<close>
  hands its arguments to the base strategy's method of the same name when
  \<^verbatim>\<open>module_wrapped\<close> is true and to the model's method of the same name when it is false,
  makes that one call and no other, and returns what the callee returned.
\<close>

theorem step_methods_dispatch:
  "(module_wrapped p \<longrightarrow>
       training_step e p args kwargs w =
         (ext_super_step e TrainingStep (model p) args kwargs, emit (E_super_step TrainingStep) w)
     \<and> validation_step e p args kwargs w =
         (ext_super_step e ValidationStep (model p) args kwargs, emit (E_super_step ValidationStep) w)
     \<and> test_step e p args kwargs w =
         (ext_super_step e TestStep (model p) args kwargs, emit (E_super_step TestStep) w)
     \<and> predict_step e p args kwargs w =
         (ext_super_step e PredictStep (model p) args kwargs, emit (E_super_step PredictStep) w))
   \<and> (\<not> module_wrapped p \<longrightarrow>
       training_step e p args kwargs w =
         (ext_model_step e TrainingStep (model p) args kwargs, emit (E_model_step TrainingStep) w)
     \<and> validation_step e p args kwargs w =
         (ext_model_step e ValidationStep (model p) args kwargs, emit (E_model_step ValidationStep) w)
     \<and> test_step e p args kwargs w =
         (ext_model_step e TestStep (model p) args kwargs, emit (E_model_step TestStep) w)
     \<and> predict_step e p args kwargs w =
         (ext_model_step e PredictStep (model p) args kwargs, emit (E_model_step PredictStep) w))"
  by (simp add: training_step_def validation_step_def test_step_def predict_step_def)

theorem step_methods_dispatch_witness:
  "module_wrapped (example_plugin\<lparr>module_wrap := True\<rparr>)
   \<and> fst (training_step example_ext (example_plugin\<lparr>module_wrap := True\<rparr>) [1] [] example_world) = 20
   \<and> \<not> module_wrapped example_plugin
   \<and> fst (predict_step example_ext example_plugin [1] [] example_world) = 10"
proof -
  have w: "module_wrapped (example_plugin\<lparr>module_wrap := True\<rparr>)"
    by (simp add: module_wrapped_def)
  have nw: "\<not> module_wrapped example_plugin"
    by (simp add: module_wrapped_def example_plugin_def)
  have s: "\<And>s m a k. ext_super_step example_ext s m a k = 20"
    and m: "\<And>s m a k. ext_model_step example_ext s m a k = 10"
    by (simp_all add: example_ext_def)
  from step_methods_dispatch
         [of "example_plugin\<lparr>module_wrap := True\<rparr>" example_ext "[1]" "[]" example_world] w
  have "fst (training_step example_ext (example_plugin\<lparr>module_wrap := True\<rparr>) [1] []
          example_world) = 20"
    by (simp only: simp_thms fst_conv s)
  moreover
  from step_methods_dispatch [of example_plugin example_ext "[1]" "[]" example_world] nw
  have "fst (predict_step example_ext example_plugin [1] [] example_world) = 10"
    by (simp only: simp_thms fst_conv m)
  ultimately show ?thesis using w nw by blast
qed

section \<open>Wrapping and device placement\<close>

lemma wrap_model_frame:
  assumes "wrap_model e cfg p w = (p', w')"
  shows "cpu_offload p' = cpu_offload p" "root_device p' = root_device p"
    "process_group_attr p' = process_group_attr p"
    "\<exists>evs. trace w' = trace w @ evs \<and> set evs \<subseteq> {E_wrap, E_auto_wrap}"
proof -
  from assms show "cpu_offload p' = cpu_offload p" "root_device p' = root_device p"
     "process_group_attr p' = process_group_attr p"
    by (auto simp: wrap_model_def Let_def split: if_splits)
  from assms have "trace w' = trace w @ [E_auto_wrap, E_wrap] \<or> trace w' = trace w @ [E_auto_wrap]
      \<or> trace w' = trace w @ [E_wrap] \<or> trace w' = trace w @ []"
    by (auto simp: wrap_model_def Let_def split: if_splits)
  then show "\<exists>evs. trace w' = trace w @ evs \<and> set evs \<subseteq> {E_wrap, E_auto_wrap}"
    by (elim disjE) (rule exI, erule conjI, simp)+
qed

text \<open>
  C10: the trace of \<open>configure_ddp\<close> ends with the close of the sharding context, then
  the device moves, then the optimizer setup. With \<^verbatim>\<open>cpu_offload\<close> the moves are absent;
  without it they are the move of the model and the move of the lightning module, both
  to the root device. Nothing is moved before the context closes.
\<close>

theorem configure_ddp_device_move:
  "\<exists>pre. trace (snd (configure_ddp e p w)) =
           trace w @ pre @ [E_enable_wrap_exit]
             @ (if cpu_offload p then []
                else [E_model_to (root_device p), E_lightning_module_to (root_device p)])
             @ [E_setup_optimizers]
         \<and> (\<forall>d. E_model_to d \<notin> set pre \<and> E_lightning_module_to d \<notin> set pre)"
proof -
  obtain cfg p1 w1 where en: "model_sharded_context_enter e p w = (cfg, p1, w1)"
    by (cases "model_sharded_context_enter e p w") auto
  obtain p2 w2 where wm: "wrap_model e cfg p1 w1 = (p2, w2)"
    by (cases "wrap_model e cfg p1 w1") auto
  from enter_frame(7) [OF en] obtain evs1 where evs1: "trace w1 = trace w @ evs1"
    "\<forall>ev \<in> set evs1. is_new_group ev \<or> ev = E_enable_wrap_enter cfg" by blast
  from wrap_model_frame(4) [OF wm] obtain evs2 where evs2: "trace w2 = trace w1 @ evs2"
    "set evs2 \<subseteq> {E_wrap, E_auto_wrap}" by blast
  have co: "cpu_offload p2 = cpu_offload p" and rd: "root_device p2 = root_device p"
    using enter_frame(4,5) [OF en] wrap_model_frame(1,2) [OF wm] by simp_all
  have tr: "trace (snd (configure_ddp e p w)) =
           trace w2 @ [E_enable_wrap_exit]
             @ (if cpu_offload p then []
                else [E_model_to (root_device p), E_lightning_module_to (root_device p)])
             @ [E_setup_optimizers]"
    using en wm co rd
    by (simp add: configure_ddp_def model_sharded_context_exit_def model_to_device_def Let_def)
  have clean: "\<forall>d. E_model_to d \<notin> set (evs1 @ evs2) \<and> E_lightning_module_to d \<notin> set (evs1 @ evs2)"
    using evs1(2) evs2(2) by auto
  from tr evs1(1) evs2(1) have "trace (snd (configure_ddp e p w)) =
           trace w @ (evs1 @ evs2) @ [E_enable_wrap_exit]
             @ (if cpu_offload p then []
                else [E_model_to (root_device p), E_lightning_module_to (root_device p)])
             @ [E_setup_optimizers]" by simp
  with clean show ?thesis by blast
qed

theorem configure_ddp_device_move_witness:
  "(\<exists>pre. trace (snd (configure_ddp example_ext (example_plugin\<lparr>cpu_offload := True\<rparr>)
              example_world)) = pre @ [E_enable_wrap_exit, E_setup_optimizers]
          \<and> (\<forall>d. E_model_to d \<notin> set pre \<and> E_lightning_module_to d \<notin> set pre))
   \<and> (\<exists>pre. trace (snd (configure_ddp example_ext example_plugin example_world)) =
            pre @ [E_enable_wrap_exit, E_model_to (Device ''cuda'' (Some 0)),
                   E_lightning_module_to (Device ''cuda'' (Some 0)), E_setup_optimizers]
          \<and> (\<forall>d. E_model_to d \<notin> set pre \<and> E_lightning_module_to d \<notin> set pre))"
proof -
  have t: "trace example_world = []" by (simp add: example_world_def)
  have c: "\<not> cpu_offload example_plugin"
    and r: "root_device example_plugin = Device ''cuda'' (Some 0)"
    by (simp_all add: example_plugin_def)
  from configure_ddp_device_move
         [of example_ext "example_plugin\<lparr>cpu_offload := True\<rparr>" example_world]
  have a: "\<exists>pre. trace (snd (configure_ddp example_ext (example_plugin\<lparr>cpu_offload := True\<rparr>)
              example_world)) = pre @ [E_enable_wrap_exit, E_setup_optimizers]
          \<and> (\<forall>d. E_model_to d \<notin> set pre \<and> E_lightning_module_to d \<notin> set pre)"
    by (simp add: t)
  from configure_ddp_device_move [of example_ext example_plugin example_world]
  have b: "\<exists>pre. trace (snd (configure_ddp example_ext example_plugin example_world)) =
            pre @ [E_enable_wrap_exit, E_model_to (Device ''cuda'' (Some 0)),
                   E_lightning_module_to (Device ''cuda'' (Some 0)), E_setup_optimizers]
          \<and> (\<forall>d. E_model_to d \<notin> set pre \<and> E_lightning_module_to d \<notin> set pre)"
    by (simp add: t c r)
  from a b show ?thesis by blast
qed

section \<open>The memoised process group\<close>

lemma new_group_calls_emit [simp]:
  "new_group_calls (emit ev w) = (if is_new_group ev then Suc (new_group_calls w) else new_group_calls w)"
  by (simp add: new_group_calls_def)

lemma new_group_calls_trace_cong:
  "trace w' = trace w @ evs \<Longrightarrow> \<forall>ev \<in> set evs. \<not> is_new_group ev \<Longrightarrow>
   new_group_calls w' = new_group_calls w"
  by (simp add: new_group_calls_def)

lemma memo_step_refl: "memo_step s s"
  by (simp add: memo_step_def)

lemma memo_step_trans: "memo_step s t \<Longrightarrow> memo_step t u \<Longrightarrow> memo_step s u"
  by (auto simp: memo_step_def)

lemma memo_step_same:
  "process_group_attr p' = process_group_attr p \<Longrightarrow> new_group_calls w' = new_group_calls w \<Longrightarrow>
   memo_step (p, w) (p', w')"
  by (simp add: memo_step_def)

lemma process_group_None:
  "process_group_attr p = None \<Longrightarrow>
   process_group p w =
     (groups_created w, p\<lparr>process_group_attr := Some (groups_created w)\<rparr>,
      emit (E_new_group (groups_created w)) (w\<lparr>groups_created := Suc (groups_created w)\<rparr>))"
  by (simp add: process_group_def new_group_def)

lemma process_group_Some:
  "process_group_attr p = Some g \<Longrightarrow> process_group p w = (g, p, w)"
  by (simp add: process_group_def)

lemma process_group_memo:
  assumes "process_group p w = (g, p', w')"
  shows "memo_step (p, w) (p', w')" and "process_group_attr p' = Some g"
proof -
  show "memo_step (p, w) (p', w')"
  proof (cases "process_group_attr p")
    case None
    from process_group_None [OF None, of w] assms None show ?thesis
      by (auto simp: memo_step_def new_group_calls_def emit_def)
  next
    case (Some g0)
    from process_group_Some [OF Some, of w] assms show ?thesis
      by (auto simp: memo_step_def)
  qed
  show "process_group_attr p' = Some g"
  proof (cases "process_group_attr p")
    case None
    from process_group_None [OF None, of w] assms show ?thesis by auto
  next
    case (Some g0)
    from process_group_Some [OF Some, of w] assms Some show ?thesis by auto
  qed
qed

lemma enter_memo:
  assumes "model_sharded_context_enter e p w = (cfg, p', w')"
  shows "memo_step (p, w) (p', w')"
proof -
  obtain g p1 w1 where pg: "process_group p w = (g, p1, w1)"
    by (cases "process_group p w") auto
  from assms pg have p': "p' = p1" and w': "w' = emit (E_enable_wrap_enter cfg) w1"
    by (auto simp: model_sharded_context_enter_def Let_def)
  have "memo_step (p1, w1) (p', w')" using p' w' by (simp add: memo_step_def)
  with process_group_memo(1) [OF pg] show ?thesis by (rule memo_step_trans)
qed

lemma configure_ddp_memo:
  assumes "configure_ddp e p w = (p', w')"
  shows "memo_step (p, w) (p', w')"
proof -
  obtain cfg p1 w1 where en: "model_sharded_context_enter e p w = (cfg, p1, w1)"
    by (cases "model_sharded_context_enter e p w") auto
  obtain p2 w2 where wm: "wrap_model e cfg p1 w1 = (p2, w2)"
    by (cases "wrap_model e cfg p1 w1") auto
  from wrap_model_frame(4) [OF wm] obtain evs where evs: "trace w2 = trace w1 @ evs"
    "set evs \<subseteq> {E_wrap, E_auto_wrap}" by blast
  from evs(2) have "\<forall>ev \<in> set evs. \<not> is_new_group ev" by auto
  from new_group_calls_trace_cong [OF evs(1) this]
  have n2: "new_group_calls w2 = new_group_calls w1" .
  from assms en wm have "process_group_attr p' = process_group_attr p2"
    and "new_group_calls w' = new_group_calls w2"
    by (auto simp: configure_ddp_def model_sharded_context_exit_def model_to_device_def Let_def
             split: if_splits)
  with n2 wrap_model_frame(3) [OF wm] have "memo_step (p1, w1) (p', w')"
    by (simp add: memo_step_def)
  with enter_memo [OF en] show ?thesis by (rule memo_step_trans)
qed

lemma exec_memo:
  assumes "exec e c (p, w) = (p', w')"
  shows "memo_step (p, w) (p', w')"
proof (cases c)
  case (Set_model m)
  with assms show ?thesis by (auto simp: memo_step_def)
next
  case (Set_root_device d)
  with assms show ?thesis by (auto simp: memo_step_def)
next
  case Get_process_group
  with assms obtain g where "process_group p w = (g, p', w')"
    by (cases "process_group p w") auto
  then show ?thesis by (rule process_group_memo(1))
next
  case Get_lightning_module
  with assms show ?thesis by (auto simp: memo_step_def)
next
  case Get_module_wrapped
  with assms show ?thesis by (auto simp: memo_step_def)
next
  case Get_setup_optimizers_in_pre_dispatch
  with assms show ?thesis by (auto simp: memo_step_def)
next
  case Call_setup_distributed
  with assms show ?thesis
    by (auto simp: setup_distributed_def Let_def memo_step_def split: if_splits)
next
  case Call_model_sharded_context
  obtain cfg p1 w1 where en: "model_sharded_context_enter e p w = (cfg, p1, w1)"
    by (cases "model_sharded_context_enter e p w") auto
  with assms Call_model_sharded_context
  have "p' = p1" and "w' = emit E_enable_wrap_exit w1"
    by (auto simp: model_sharded_context_exit_def)
  then have "memo_step (p1, w1) (p', w')" by (simp add: memo_step_def)
  with enter_memo [OF en] show ?thesis by (rule memo_step_trans)
next
  case Call_configure_ddp
  with assms configure_ddp_memo [of e p w p' w'] show ?thesis by simp
next
  case Call_model_to_device
  with assms show ?thesis by (auto simp: model_to_device_def memo_step_def)
next
  case Call_pre_dispatch
  let ?p1 = "if sync_batchnorm p = Some True
             then p\<lparr>model := ext_configure_sync_batchnorm e (model p)\<rparr> else p"
  let ?w1 = "if sync_batchnorm p = Some True then emit E_configure_sync_batchnorm w else w"
  obtain p2 w2 where cd: "configure_ddp e ?p1 ?w1 = (p2, w2)"
    by (cases "configure_ddp e ?p1 ?w1") auto
  with assms Call_pre_dispatch have "p' = p2" and "w' = emit E_barrier w2"
    by (auto simp: pre_dispatch_def split: if_splits)
  then have b: "memo_step (p2, w2) (p', w')" by (simp add: memo_step_def)
  have a: "memo_step (p, w) (?p1, ?w1)" by (simp add: memo_step_def)
  from a configure_ddp_memo [OF cd] have "memo_step (p, w) (p2, w2)" by (rule memo_step_trans)
  from this b show ?thesis by (rule memo_step_trans)
next
  case (Call_on_save checkpoint)
  have "new_group_calls (snd (on_save e p checkpoint w)) = new_group_calls w"
    by (rule new_group_calls_trace_cong [OF on_save_trace]) simp
  with assms Call_on_save show ?thesis by (auto simp: memo_step_def)
next
  case Call_collate_state_dict
  have "new_group_calls (snd (collate_state_dict e p w)) = new_group_calls w"
    by (rule new_group_calls_trace_cong [OF collate_state_dict_trace]) simp
  with assms Call_collate_state_dict show ?thesis by (auto simp: memo_step_def)
next
  case (Call_step s args kwargs)
  have "new_group_calls (snd (step_method s e p args kwargs w)) = new_group_calls w"
    by (cases s)
       (simp_all add: training_step_def validation_step_def test_step_def predict_step_def)
  with assms Call_step show ?thesis by (auto simp: memo_step_def)
next
  case Call_post_training_step
  with assms show ?thesis by (auto simp: post_training_step_def memo_step_def)
qed

lemma run_memo: "run e cs (p, w) = (p', w') \<Longrightarrow> memo_step (p, w) (p', w')"
proof (induction cs arbitrary: p w)
  case Nil
  then show ?case by (simp add: memo_step_def)
next
  case (Cons c cs)
  obtain p1 w1 where ex: "exec e c (p, w) = (p1, w1)"
    by (cases "exec e c (p, w)") auto
  with Cons.prems have "run e cs (p1, w1) = (p', w')" by simp
  from exec_memo [OF ex] Cons.IH [OF this] show ?case by (rule memo_step_trans)
qed


text \<open>
  C9: at any point in the life of a constructed instance, reading \<open>process_group\<close>
  returns a group that is then stored in the instance; if none was stored before, that
  read makes exactly one call of \<^verbatim>\<open>new_group\<close>. Whatever happens afterwards, a later
  read returns the same group, changes nothing and makes no further \<^verbatim>\<open>new_group\<close>
  call, and over the whole life \<^verbatim>\<open>new_group\<close> is called at most once.
\<close>

theorem process_group_memoised:
  assumes "init available si a = Inr p0"
    and "run e cs (p0, w0) = (p, w)"
    and "process_group p w = (g, p1, w1)"
    and "run e cs' (p1, w1) = (p2, w2)"
  shows "process_group_attr p1 = Some g
     \<and> (process_group_attr p = None \<longrightarrow>
           new_group_calls w1 = Suc (new_group_calls w) \<and> E_new_group g \<in> set (trace w1))
     \<and> (process_group_attr p \<noteq> None \<longrightarrow> p1 = p \<and> w1 = w)
     \<and> process_group p2 w2 = (g, p2, w2)
     \<and> new_group_calls w2 = new_group_calls w1
     \<and> new_group_calls w2 \<le> Suc (new_group_calls w0)"
proof -
  from init_Inr_flags [OF assms(1)] have fresh: "process_group_attr p0 = None" by simp
  note m01 = run_memo [OF assms(2)]
  note m12 = process_group_memo(1) [OF assms(3)]
  note stored = process_group_memo(2) [OF assms(3)]
  note m23 = run_memo [OF assms(4)]
  from m23 stored have keep: "process_group_attr p2 = Some g"
    and same: "new_group_calls w2 = new_group_calls w1"
    by (auto simp: memo_step_def)
  have first: "process_group_attr p = None \<longrightarrow>
           new_group_calls w1 = Suc (new_group_calls w) \<and> E_new_group g \<in> set (trace w1)"
  proof
    assume n: "process_group_attr p = None"
    from process_group_None [OF n, of w] assms(3)
    show "new_group_calls w1 = Suc (new_group_calls w) \<and> E_new_group g \<in> set (trace w1)"
      by (auto simp: new_group_calls_def emit_def)
  qed
  have later: "process_group_attr p \<noteq> None \<longrightarrow> p1 = p \<and> w1 = w"
  proof
    assume "process_group_attr p \<noteq> None"
    then obtain g0 where s: "process_group_attr p = Some g0" by auto
    from process_group_Some [OF s, of w] assms(3) show "p1 = p \<and> w1 = w" by simp
  qed
  from m01 m12 have "memo_step (p0, w0) (p1, w1)" by (rule memo_step_trans)
  from this m23 have "memo_step (p0, w0) (p2, w2)" by (rule memo_step_trans)
  then have once: "new_group_calls w2 \<le> Suc (new_group_calls w0)"
    by (auto simp: memo_step_def)
  from stored first later process_group_Some [OF keep, of w2] same once
  show ?thesis by blast
qed

theorem process_group_memoised_witness:
  "init True example_super_init default_args = Inr example_plugin
   \<and> process_group
        (fst (run example_ext [Call_pre_dispatch]
               (example_plugin\<lparr>process_group_attr := Some 0\<rparr>,
                emit (E_new_group 0) (example_world\<lparr>groups_created := Suc 0\<rparr>))))
        (snd (run example_ext [Call_pre_dispatch]
               (example_plugin\<lparr>process_group_attr := Some 0\<rparr>,
                emit (E_new_group 0) (example_world\<lparr>groups_created := Suc 0\<rparr>))))
     = (0,
        run example_ext [Call_pre_dispatch]
               (example_plugin\<lparr>process_group_attr := Some 0\<rparr>,
                emit (E_new_group 0) (example_world\<lparr>groups_created := Suc 0\<rparr>)))"
proof -
  let ?p1 = "example_plugin\<lparr>process_group_attr := Some 0\<rparr>"
  let ?w1 = "emit (E_new_group 0) (example_world\<lparr>groups_created := Suc 0\<rparr>)"
  let ?r = "run example_ext [Call_pre_dispatch] (?p1, ?w1)"
  have r0: "run example_ext [] (example_plugin, example_world) = (example_plugin, example_world)"
    by simp
  have n: "process_group_attr example_plugin = None" by (simp add: example_plugin_def)
  have g0: "groups_created example_world = 0" by (simp add: example_world_def)
  have pg: "process_group example_plugin example_world = (0, ?p1, ?w1)"
    using process_group_None [OF n, of example_world] by (simp add: g0)
  have r: "?r = (fst ?r, snd ?r)" by simp
  from process_group_memoised [OF example_init r0 pg r]
  have "process_group (fst ?r) (snd ?r) = (0, fst ?r, snd ?r)" by blast
  then have "process_group (fst ?r) (snd ?r) = (0, ?r)" by (simp only: prod.collapse)
  with example_init show ?thesis by blast
qed

section \<open>Partitioning keys\<close>

lemma find_sep_prefix: "sep \<noteq> [] \<Longrightarrow> find_sep sep (sep @ t) = Some ([], t)"
  by (cases sep) simp_all

lemma find_sep_None_iff:
  assumes "sep \<noteq> []"
  shows "find_sep sep s = None \<longleftrightarrow> (\<forall>u t. s \<noteq> u @ sep @ t)"
proof (induction s)
  case Nil
  with assms show ?case by simp
next
  case (Cons c cs)
  show ?case
  proof (cases "prefix sep (c # cs)")
    case True
    then obtain t where "c # cs = sep @ t" by (auto simp: prefix_def)
    then have "c # cs = [] @ sep @ t" by simp
    then have "\<not> (\<forall>u t. c # cs \<noteq> u @ sep @ t)" by blast
    with True show ?thesis by simp
  next
    case False
    have "(\<forall>u t. c # cs \<noteq> u @ sep @ t) \<longleftrightarrow> (\<forall>u t. cs \<noteq> u @ sep @ t)"
    proof
      assume a: "\<forall>u t. c # cs \<noteq> u @ sep @ t"
      show "\<forall>u t. cs \<noteq> u @ sep @ t"
      proof (intro allI notI)
        fix u t assume "cs = u @ sep @ t"
        then have "c # cs = (c # u) @ sep @ t" by simp
        with a show False by blast
      qed
    next
      assume a: "\<forall>u t. cs \<noteq> u @ sep @ t"
      show "\<forall>u t. c # cs \<noteq> u @ sep @ t"
      proof (intro allI notI)
        fix u t assume eq: "c # cs = u @ sep @ t"
        show False
        proof (cases u)
          case Nil
          with eq have "prefix sep (c # cs)" by (simp add: prefix_def)
          with False show False by simp
        next
          case (Cons c' u')
          with eq have "cs = u' @ sep @ t" by simp
          with a show False by blast
        qed
      qed
    qed
    then have A: "(\<forall>u t. c # cs \<noteq> u @ sep @ t) = (\<forall>u t. cs \<noteq> u @ sep @ t)" .
    from False have B: "(find_sep sep (c # cs) = None) = (find_sep sep cs = None)"
      by (auto split: option.splits)
    show ?thesis by (simp only: A B Cons.IH)
  qed
qed

lemma find_sep_SomeD:
  assumes "sep \<noteq> []"
  shows "find_sep sep s = Some (a, b) \<Longrightarrow>
         s = a @ sep @ b \<and> (\<forall>u t. length u < length a \<longrightarrow> s \<noteq> u @ sep @ t)"
proof (induction s arbitrary: a)
  case Nil
  with assms show ?case by simp
next
  case (Cons c cs)
  show ?case
  proof (cases "prefix sep (c # cs)")
    case True
    with Cons.prems have a: "a = []" and b: "b = drop (length sep) (c # cs)" by simp_all
    from True obtain t where t: "c # cs = sep @ t" by (auto simp: prefix_def)
    with b have "b = t" by simp
    with a t show ?thesis by simp
  next
    case False
    with Cons.prems obtain h where fs: "find_sep sep cs = Some (h, b)" and a: "a = c # h"
      by (auto split: option.splits)
    from Cons.IH [OF fs] have cs: "cs = h @ sep @ b"
      and first: "\<forall>u t. length u < length h \<longrightarrow> cs \<noteq> u @ sep @ t" by blast+
    have "\<forall>u t. length u < length a \<longrightarrow> c # cs \<noteq> u @ sep @ t"
    proof (intro allI impI notI)
      fix u t assume len: "length u < length a" and eq: "c # cs = u @ sep @ t"
      show False
      proof (cases u)
        case Nil
        with eq have "prefix sep (c # cs)" by (simp add: prefix_def)
        with False show False by simp
      next
        case (Cons c' u')
        with eq have "cs = u' @ sep @ t" by simp
        moreover from Cons len a have "length u' < length h" by simp
        ultimately show False using first by blast
      qed
    qed
    with cs a show ?thesis by simp
  qed
qed

lemma find_sep_first:
  assumes "sep \<noteq> []"
    and "\<forall>u t. length u < length a \<longrightarrow> a @ sep @ b \<noteq> u @ sep @ t"
  shows "find_sep sep (a @ sep @ b) = Some (a, b)"
proof -
  have "find_sep sep (a @ sep @ b) \<noteq> None"
    using find_sep_None_iff [OF assms(1), of "a @ sep @ b"] by blast
  then obtain a' b' where fs: "find_sep sep (a @ sep @ b) = Some (a', b')" by auto
  from find_sep_SomeD [OF assms(1) fs]
  have eq: "a @ sep @ b = a' @ sep @ b'"
    and first: "\<forall>u t. length u < length a' \<longrightarrow> a @ sep @ b \<noteq> u @ sep @ t" by blast+
  from first have "\<not> length a < length a'" by blast
  moreover from assms(2) eq have "\<not> length a' < length a" by blast
  ultimately have "length a = length a'" by simp
  with eq have "a = a'" "b = b'" by simp_all
  with fs show ?thesis by simp
qed

lemma partition_str_absent:
  "sep \<noteq> [] \<Longrightarrow> \<forall>u t. k \<noteq> u @ sep @ t \<Longrightarrow> partition_str k sep = Inr (k, [], [])"
  using find_sep_None_iff [of sep k] by (simp add: partition_str_def)

lemma partition_str_first:
  "sep \<noteq> [] \<Longrightarrow> \<forall>u t. length u < length a \<longrightarrow> a @ sep @ b \<noteq> u @ sep @ t \<Longrightarrow>
   partition_str (a @ sep @ b) sep = Inr (a, sep, b)"
  using find_sep_first [of sep a b] by (simp add: partition_str_def)

lemma partition_str_prefix:
  "sep \<noteq> [] \<Longrightarrow> prefix sep k \<Longrightarrow> partition_str k sep = Inr ([], sep, drop (length sep) k)"
  using find_sep_prefix [of sep] by (auto simp: partition_str_def prefix_def)

lemma dict_setitem_new:
  "k \<notin> fst ` set d \<Longrightarrow> dict_setitem k v d = d @ [(k, v)]"
  by (induction d) auto

lemma dict_getitem_member:
  "distinct (map fst d) \<Longrightarrow> (k, v) \<in> set d \<Longrightarrow> dict_getitem d k = Inr v"
  by (simp add: dict_getitem_def)


lemma prefix_drop_eq:
  "prefix sep k \<Longrightarrow> prefix sep k' \<Longrightarrow> drop (length sep) k = drop (length sep) k' \<Longrightarrow> k = k'"
  by (auto simp: prefix_def)

lemma strip_items_step:
  assumes "partition_str k ''module.'' = Inr (h, s, t)" and "dict_getitem sd k = Inr v"
  shows "strip_items sd (k # ks) acc = strip_items sd ks (dict_setitem t v acc)"
  using assms by (simp only: strip_items.simps sum.case prod.case)

lemma strip_items_prefixed:
  assumes "distinct (map fst sd)"
  shows "set xs \<subseteq> set sd \<Longrightarrow> distinct (map fst xs) \<Longrightarrow>
         \<forall>k \<in> fst ` set xs. prefix ''module.'' k \<Longrightarrow>
         \<forall>k \<in> fst ` set xs. drop (length ''module.'') k \<notin> fst ` set acc \<Longrightarrow>
         strip_items sd (map fst xs) acc =
           Inr (acc @ map (\<lambda>(k, v). (drop (length ''module.'') k, v)) xs)"
proof (induction xs arbitrary: acc)
  case Nil
  show ?case by simp
next
  case (Cons x xs)
  let ?sep = "''module.''"
  let ?n = "length ?sep"
  obtain k v where x: "x = (k, v)" by (cases x)
  have sep: "?sep \<noteq> []" by simp
  have kin: "k \<in> fst ` set (x # xs)" using x by simp
  have mono: "fst ` set xs \<subseteq> fst ` set (x # xs)" by auto
  from Cons.prems(3) kin have pk: "prefix ?sep k" by blast
  from Cons.prems(1) x have mem: "(k, v) \<in> set sd" by simp
  from Cons.prems(4) kin have new: "drop ?n k \<notin> fst ` set acc" by blast
  note ps = partition_str_prefix [OF sep pk]
  note gi = dict_getitem_member [OF assms mem]
  note si = dict_setitem_new [OF new, of v]
  have sub: "set xs \<subseteq> set sd" using Cons.prems(1) by simp
  have dis: "distinct (map fst xs)" using Cons.prems(2) by simp
  have pre: "\<forall>k \<in> fst ` set xs. prefix ?sep k" using Cons.prems(3) mono by blast
  have fresh: "\<forall>k' \<in> fst ` set xs. drop ?n k' \<notin> fst ` set (acc @ [(drop ?n k, v)])"
  proof
    fix k' assume k': "k' \<in> fst ` set xs"
    with Cons.prems(4) mono have a: "drop ?n k' \<notin> fst ` set acc" by blast
    from k' Cons.prems(2) x have ne: "k' \<noteq> k" by auto
    from k' pre have "prefix ?sep k'" by blast
    from prefix_drop_eq [OF this pk] ne have "drop ?n k' \<noteq> drop ?n k" by blast
    with a show "drop ?n k' \<notin> fst ` set (acc @ [(drop ?n k, v)])" by simp
  qed
  have "strip_items sd (map fst (x # xs)) acc
          = strip_items sd (map fst xs) (dict_setitem (drop ?n k) v acc)"
    using strip_items_step [OF ps gi, of "map fst xs" acc] x by simp
  also have "\<dots> = strip_items sd (map fst xs) (acc @ [(drop ?n k, v)])"
    by (simp only: si)
  also have "\<dots> = Inr ((acc @ [(drop ?n k, v)]) @ map (\<lambda>(k, v). (drop ?n k, v)) xs)"
    by (rule Cons.IH [OF sub dis pre fresh])
  also have "\<dots> = Inr (acc @ map (\<lambda>(k, v). (drop ?n k, v)) (x # xs))"
    using x by simp
  finally show ?case .
qed

lemma strip_items_all_prefixed:
  assumes "distinct (dict_keys sd)" and "\<forall>k \<in> set (dict_keys sd). prefix ''module.'' k"
  shows "strip_items sd (dict_keys sd) [] =
           Inr (map (\<lambda>(k, v). (drop (length ''module.'') k, v)) sd)"
proof -
  from assms have d: "distinct (map fst sd)"
    and p: "\<forall>k \<in> fst ` set sd. prefix ''module.'' k"
    by (simp_all add: dict_keys_def)
  have "strip_items sd (map fst sd) [] =
           Inr ([] @ map (\<lambda>(k, v). (drop (length ''module.'') k, v)) sd)"
    by (rule strip_items_prefixed [OF d _ d p]) simp_all
  then show ?thesis by (simp add: dict_keys_def)
qed

section \<open>Stripping the wrapper prefix\<close>

text \<open>
  C5: when the module was wrapped as a whole, every key of the model's state dict
  carries the wrapper prefix \<^verbatim>\<open>module.\<close>; what \<open>collate_state_dict\<close> then returns (once
  the debugger is continued) is the state dict with that prefix dropped from every key,
  the entries in the same order and every value unchanged. The keys
  \<^verbatim>\<open>module.layer.weight\<close> and \<^verbatim>\<open>module.layer.bias\<close> become \<^verbatim>\<open>layer.weight\<close> and
  \<^verbatim>\<open>layer.bias\<close>.
\<close>

theorem collate_state_dict_strips_prefix:
  assumes "module_wrapped p"
    and "distinct (dict_keys (ext_state_dict e (model p)))"
    and "\<forall>k \<in> set (dict_keys (ext_state_dict e (model p))). prefix ''module.'' k"
  shows "(\<forall>cs. operator w = Continue # cs \<longrightarrow>
            fst (collate_state_dict e p w) =
              Returns (map (\<lambda>(k, v). (drop (length ''module.'') k, v))
                         (ext_state_dict e (model p))))
     \<and> (\<forall>d. fst (collate_state_dict e p w) = Returns d \<longrightarrow>
            d = map (\<lambda>(k, v). (drop (length ''module.'') k, v)) (ext_state_dict e (model p)))"
proof -
  let ?sd = "ext_state_dict e (model p)"
  let ?out = "map (\<lambda>(k, v). (drop (length ''module.'') k, v)) ?sd"
  note st = strip_items_all_prefixed [OF assms(2,3)]
  have go: "fst (collate_state_dict e p w) = Returns ?out" if "operator w = Continue # cs" for cs
    using collate_state_dict_continue [OF that, of e p] assms(1)
    by (simp only: st if_True sum.case)
  show ?thesis
  proof (intro conjI allI impI)
    fix cs assume "operator w = Continue # cs"
    then show "fst (collate_state_dict e p w) = Returns ?out" by (rule go)
  next
    fix d assume r: "fst (collate_state_dict e p w) = Returns d"
    from collate_state_dict_Returns_operator [OF r] obtain cs
      where "operator w = Continue # cs" by blast
    from go [OF this] r show "d = ?out" by simp
  qed
qed

theorem collate_state_dict_strips_prefix_witness:
  "module_wrapped (example_plugin\<lparr>module_wrap := True\<rparr>)
   \<and> ext_state_dict example_ext (model (example_plugin\<lparr>module_wrap := True\<rparr>))
       = [(''module.layer.weight'', 1), (''module.layer.bias'', 2)]
   \<and> fst (collate_state_dict example_ext (example_plugin\<lparr>module_wrap := True\<rparr>) example_world)
       = Returns [(''layer.weight'', 1), (''layer.bias'', 2)]"
proof -
  let ?p = "example_plugin\<lparr>module_wrap := True\<rparr>"
  have w: "module_wrapped ?p" by (simp add: module_wrapped_def)
  have sdm: "\<And>m. ext_state_dict example_ext m
              = [(''module.layer.weight'', 1), (''module.layer.bias'', 2)]"
    by (simp add: example_ext_def)
  have sd: "ext_state_dict example_ext (model ?p)
              = [(''module.layer.weight'', 1), (''module.layer.bias'', 2)]"
    by (rule sdm)
  have d: "distinct (dict_keys (ext_state_dict example_ext (model ?p)))"
    by (simp add: sdm dict_keys_def)
  have pr: "\<forall>k \<in> set (dict_keys (ext_state_dict example_ext (model ?p))). prefix ''module.'' k"
    by (simp add: sdm dict_keys_def)
  have op: "operator example_world = Continue # []" by (simp add: example_world_def)
  have "fst (collate_state_dict example_ext ?p example_world)
          = Returns (map (\<lambda>(k, v). (drop (length ''module.'') k, v))
                       (ext_state_dict example_ext (model ?p)))"
    by (rule collate_state_dict_strips_prefix
               [OF w d pr, of example_world, THEN conjunct1, rule_format, OF op])
  then have "fst (collate_state_dict example_ext ?p example_world)
          = Returns [(''layer.weight'', 1), (''layer.bias'', 2)]"
    by (simp add: sdm)
  with w sd show ?thesis by blast
qed

lemma strip_items_two_absent:
  assumes "k1 \<noteq> k2"
    and "\<forall>u t. k1 \<noteq> u @ ''module.'' @ t" and "\<forall>u t. k2 \<noteq> u @ ''module.'' @ t"
  shows "strip_items [(k1, v1), (k2, v2)] [k1, k2] [] = Inr [([], v2)]"
proof -
  let ?sd = "[(k1, v1), (k2, v2)]"
  have sep: "''module.'' \<noteq> []" by simp
  have g1: "dict_getitem ?sd k1 = Inr v1" by (simp add: dict_getitem_def)
  have g2: "dict_getitem ?sd k2 = Inr v2" using assms(1) by (simp add: dict_getitem_def)
  have "strip_items ?sd [k1, k2] [] = strip_items ?sd [k2] (dict_setitem [] v1 [])"
    by (rule strip_items_step [OF partition_str_absent [OF sep assms(2)] g1])
  also have "\<dots> = strip_items ?sd [] (dict_setitem [] v2 (dict_setitem [] v1 []))"
    by (rule strip_items_step [OF partition_str_absent [OF sep assms(3)] g2])
  also have "\<dots> = Inr [([], v2)]" by simp
  finally show ?thesis .
qed

lemma strip_items_one_first:
  assumes "\<forall>u t. length u < length a \<longrightarrow> a @ ''module.'' @ b \<noteq> u @ ''module.'' @ t"
  shows "strip_items [(a @ ''module.'' @ b, v)] [a @ ''module.'' @ b] [] = Inr [(b, v)]"
proof -
  let ?k = "a @ ''module.'' @ b"
  have sep: "''module.'' \<noteq> []" by simp
  have g: "dict_getitem [(?k, v)] ?k = Inr v" by (simp add: dict_getitem_def)
  have "strip_items [(?k, v)] [?k] [] = strip_items [(?k, v)] [] (dict_setitem b v [])"
    by (rule strip_items_step [OF partition_str_first [OF sep assms] g])
  also have "\<dots> = Inr [(b, v)]" by simp
  finally show ?thesis .
qed

text \<open>
  C7: the new key is the third component of \<^verbatim>\<open>k.partition('module.')\<close>, which is not a
  prefix strip. A key in which \<^verbatim>\<open>module.\<close> does not occur is partitioned into itself
  and two empty strings, so its new key is the empty string; a key whose first
  occurrence of \<^verbatim>\<open>module.\<close> comes after some text \<open>a\<close> loses \<open>a\<close> and that occurrence.
  So a wrapped module whose state dict has the one key \<open>a @ ''module.'' @ b\<close> gets the
  key \<open>b\<close>, and one whose state dict has two different keys without \<^verbatim>\<open>module.\<close> gets a
  dictionary with the single key \<^verbatim>\<open>''\<close>, holding the value of the second.
\<close>

theorem partition_is_not_a_prefix_strip:
  "((\<forall>u t. k \<noteq> u @ ''module.'' @ t) \<longrightarrow> partition_str k ''module.'' = Inr (k, [], []))
   \<and> ((\<forall>u t. length u < length a \<longrightarrow> a @ ''module.'' @ b \<noteq> u @ ''module.'' @ t) \<longrightarrow>
        partition_str (a @ ''module.'' @ b) ''module.'' = Inr (a, ''module.'', b))
   \<and> (module_wrapped p \<and> operator w = Continue # cs
        \<and> ext_state_dict e (model p) = [(a @ ''module.'' @ b, v)]
        \<and> (\<forall>u t. length u < length a \<longrightarrow> a @ ''module.'' @ b \<noteq> u @ ''module.'' @ t) \<longrightarrow>
        fst (collate_state_dict e p w) = Returns [(b, v)])
   \<and> (module_wrapped p \<and> operator w = Continue # cs
        \<and> ext_state_dict e (model p) = [(k1, v1), (k2, v2)] \<and> k1 \<noteq> k2
        \<and> (\<forall>u t. k1 \<noteq> u @ ''module.'' @ t) \<and> (\<forall>u t. k2 \<noteq> u @ ''module.'' @ t) \<longrightarrow>
        fst (collate_state_dict e p w) = Returns [([], v2)])"
proof (intro conjI impI)
  assume "\<forall>u t. k \<noteq> u @ ''module.'' @ t"
  then show "partition_str k ''module.'' = Inr (k, [], [])"
    by (rule partition_str_absent [rotated]) simp
next
  assume "\<forall>u t. length u < length a \<longrightarrow> a @ ''module.'' @ b \<noteq> u @ ''module.'' @ t"
  then show "partition_str (a @ ''module.'' @ b) ''module.'' = Inr (a, ''module.'', b)"
    by (rule partition_str_first [rotated]) simp
next
  assume h: "module_wrapped p \<and> operator w = Continue # cs
      \<and> ext_state_dict e (model p) = [(a @ ''module.'' @ b, v)]
      \<and> (\<forall>u t. length u < length a \<longrightarrow> a @ ''module.'' @ b \<noteq> u @ ''module.'' @ t)"
  then have op: "operator w = Continue # cs" and mw: "module_wrapped p"
    and sd: "ext_state_dict e (model p) = [(a @ ''module.'' @ b, v)]" by blast+
  from h have st: "strip_items [(a @ ''module.'' @ b, v)] [a @ ''module.'' @ b] [] = Inr [(b, v)]"
    using strip_items_one_first [of a b v] by blast
  have keys: "dict_keys [(a @ ''module.'' @ b, v)] = [a @ ''module.'' @ b]"
    by (simp add: dict_keys_def)
  from collate_state_dict_continue [OF op, of e p] mw
  show "fst (collate_state_dict e p w) = Returns [(b, v)]"
    by (simp only: sd keys st if_True sum.case)
next
  assume h: "module_wrapped p \<and> operator w = Continue # cs
      \<and> ext_state_dict e (model p) = [(k1, v1), (k2, v2)] \<and> k1 \<noteq> k2
      \<and> (\<forall>u t. k1 \<noteq> u @ ''module.'' @ t) \<and> (\<forall>u t. k2 \<noteq> u @ ''module.'' @ t)"
  then have op: "operator w = Continue # cs" and mw: "module_wrapped p"
    and sd: "ext_state_dict e (model p) = [(k1, v1), (k2, v2)]" by blast+
  from h have st: "strip_items [(k1, v1), (k2, v2)] [k1, k2] [] = Inr [([], v2)]"
    using strip_items_two_absent [of k1 k2 v1 v2] by blast
  have keys: "dict_keys [(k1, v1), (k2, v2)] = [k1, k2]" by (simp add: dict_keys_def)
  from collate_state_dict_continue [OF op, of e p] mw
  show "fst (collate_state_dict e p w) = Returns [([], v2)]"
    by (simp only: sd keys st if_True sum.case)
qed

theorem partition_is_not_a_prefix_strip_witness:
  "partition_str ''weight'' ''module.'' = Inr (''weight'', [], [])
   \<and> partition_str ''model.module.x'' ''module.'' = Inr (''model.'', ''module.'', ''x'')
   \<and> fst (collate_state_dict (example_ext\<lparr>ext_state_dict := \<lambda>m. [(''model.module.x'', 5)]\<rparr>)
            (example_plugin\<lparr>module_wrap := True\<rparr>) example_world) = Returns [(''x'', 5)]
   \<and> fst (collate_state_dict
            (example_ext\<lparr>ext_state_dict := \<lambda>m. [(''weight'', 1), (''bias'', 2)]\<rparr>)
            (example_plugin\<lparr>module_wrap := True\<rparr>) example_world) = Returns [([], 2)]"
proof -
  let ?p = "example_plugin\<lparr>module_wrap := True\<rparr>"
  let ?e1 = "example_ext\<lparr>ext_state_dict := \<lambda>m. [(''model.module.x'', 5)]\<rparr>"
  let ?e2 = "example_ext\<lparr>ext_state_dict := \<lambda>m. [(''weight'', 1), (''bias'', 2)]\<rparr>"
  have sep: "''module.'' \<noteq> []" by simp
  have "find_sep ''module.'' ''weight'' = None" by simp
  then have h1: "\<forall>u t. ''weight'' \<noteq> u @ ''module.'' @ t"
    by (rule find_sep_None_iff [OF sep, THEN iffD1])
  have "find_sep ''module.'' ''bias'' = None" by simp
  then have h2: "\<forall>u t. ''bias'' \<noteq> u @ ''module.'' @ t"
    by (rule find_sep_None_iff [OF sep, THEN iffD1])
  have "find_sep ''module.'' ''model.module.x'' = Some (''model.'', ''x'')" by simp
  from find_sep_SomeD [OF sep this]
  have h3: "\<forall>u t. length u < length ''model.'' \<longrightarrow>
              ''model.'' @ ''module.'' @ ''x'' \<noteq> u @ ''module.'' @ t" by simp
  have mw: "module_wrapped ?p" by (simp add: module_wrapped_def)
  have op: "operator example_world = Continue # []" by (simp add: example_world_def)
  have sd1: "ext_state_dict ?e1 (model ?p) = [(''model.'' @ ''module.'' @ ''x'', 5)]" by simp
  have sd2: "ext_state_dict ?e2 (model ?p) = [(''weight'', 1), (''bias'', 2)]" by simp
  have ne: "''weight'' \<noteq> ''bias''" by simp
  note t1 = partition_is_not_a_prefix_strip
              [where k = "''weight''" and a = "''model.''" and b = "''x''" and p = ?p
                 and w = example_world and cs = "[]" and e = ?e1 and v = 5
                 and ?k1.0 = "''weight''" and ?v1.0 = 1 and ?k2.0 = "''bias''" and ?v2.0 = 2]
  note t2 = partition_is_not_a_prefix_strip
              [where k = "''weight''" and a = "''model.''" and b = "''x''" and p = ?p
                 and w = example_world and cs = "[]" and e = ?e2 and v = 5
                 and ?k1.0 = "''weight''" and ?v1.0 = 1 and ?k2.0 = "''bias''" and ?v2.0 = 2]
  from t1 h1 have a: "partition_str ''weight'' ''module.'' = Inr (''weight'', [], [])" by blast
  from t1 h3 have "partition_str (''model.'' @ ''module.'' @ ''x'') ''module.''
                     = Inr (''model.'', ''module.'', ''x'')" by blast
  then have b: "partition_str ''model.module.x'' ''module.'' = Inr (''model.'', ''module.'', ''x'')"
    by simp
  from t1 mw op sd1 h3 have c: "fst (collate_state_dict ?e1 ?p example_world) = Returns [(''x'', 5)]"
    by blast
  from t2 mw op sd2 ne h1 h2
  have d: "fst (collate_state_dict ?e2 ?p example_world) = Returns [([], 2)]"
    by blast
  from a b c d show ?thesis by blast
qed

end
